theory Spec2Isabelle
  imports Complex_Main
begin

section \<open>Geometry: \<open>compute_iou\<close> (src/detector/pipeline.py, lines 22-39)\<close>

text \<open>
  A box is the list \<open>[x1, y1, x2, y2]\<close> of four numbers. Python's numbers are read as
  exact reals here: integer arithmetic is exact in Python, and a float is read as the
  real it denotes (rounding of float operations is outside this model).
\<close>

type_synonym coords = "real \<times> real \<times> real \<times> real"

text \<open>
  The expression \<open>max(0, x2 - x1) * max(0, y2 - y1)\<close> is written inline three times in
  the source (lines 35, 36 and 106); it is named once here.
\<close>

fun clamped_area :: "coords \<Rightarrow> real" where
  "clamped_area (x1, y1, x2, y2) = max 0 (x2 - x1) * max 0 (y2 - y1)"

fun compute_iou :: "coords \<Rightarrow> coords \<Rightarrow> real" where
  "compute_iou (a0, a1, a2, a3) (b0, b1, b2, b3) =
     (let x1 = max a0 b0;
          y1 = max a1 b1;
          x2 = min a2 b2;
          y2 = min a3 b3;
          inter_w = max 0 (x2 - x1);
          inter_h = max 0 (y2 - y1);
          inter_area = inter_w * inter_h;
          area1 = clamped_area (a0, a1, a2, a3);
          area2 = clamped_area (b0, b1, b2, b3);
          union_area = area1 + area2 - inter_area + 1 / 1000000
      in inter_area / union_area)"

section \<open>Vehicle boxes of one frame (lines 98-107)\<close>

record detection =
  cls_label :: string
  xyxy :: coords

record box =
  coords :: coords
  area :: real
  label :: string

definition VEHICLE_CLASSES :: "string set" where
  "VEHICLE_CLASSES = {''car'', ''motorbike'', ''bus'', ''truck''}"

fun collect_boxes :: "detection list \<Rightarrow> box list" where
  "collect_boxes [] = []"
| "collect_boxes (d # ds) =
     (if cls_label d \<notin> VEHICLE_CLASSES then collect_boxes ds
      else (case xyxy d of (x1, y1, x2, y2) \<Rightarrow>
              \<lparr>coords = (x1, y1, x2, y2),
               area = clamped_area (x1, y1, x2, y2),
               label = cls_label d\<rparr> # collect_boxes ds))"

section \<open>The heuristic's nested search (lines 110-120)\<close>

text \<open>
  The inner loop over \<open>prev_boxes\<close> for one current box \<open>cb\<close>, and the outer loop over
  \<open>curr_boxes\<close>. Each returns the flag \<open>accident_in_this_frame\<close> together with the list
  of pairs \<open>(cb, pb)\<close> on which \<open>compute_iou\<close> was called, in call order.
\<close>

fun scan_prev :: "real \<Rightarrow> real \<Rightarrow> box \<Rightarrow> box list \<Rightarrow> bool \<times> (box \<times> box) list" where
  "scan_prev accident_iou_thres area_growth_factor cb [] = (False, [])"
| "scan_prev accident_iou_thres area_growth_factor cb (pb # pbs) =
     (let iou = compute_iou (coords cb) (coords pb) in
      if iou \<ge> accident_iou_thres \<and> area pb > 0 then
        (let growth = area cb / (area pb + 1 / 1000000) in
         if growth \<ge> area_growth_factor then (True, [(cb, pb)])
         else (case scan_prev accident_iou_thres area_growth_factor cb pbs of
                 (flag, seen) \<Rightarrow> (flag, (cb, pb) # seen)))
      else (case scan_prev accident_iou_thres area_growth_factor cb pbs of
              (flag, seen) \<Rightarrow> (flag, (cb, pb) # seen)))"

fun scan_curr :: "real \<Rightarrow> real \<Rightarrow> box list \<Rightarrow> box list \<Rightarrow> bool \<times> (box \<times> box) list" where
  "scan_curr accident_iou_thres area_growth_factor [] prev_boxes = (False, [])"
| "scan_curr accident_iou_thres area_growth_factor (cb # cbs) prev_boxes =
     (case scan_prev accident_iou_thres area_growth_factor cb prev_boxes of
        (flag, seen) \<Rightarrow>
          if flag then (True, seen)
          else (case scan_curr accident_iou_thres area_growth_factor cbs prev_boxes of
                  (flag', seen') \<Rightarrow> (flag', seen @ seen')))"

definition accident_in_this_frame :: "real \<Rightarrow> real \<Rightarrow> box list \<Rightarrow> box list \<Rightarrow> bool" where
  "accident_in_this_frame accident_iou_thres area_growth_factor curr_boxes prev_boxes =
     fst (scan_curr accident_iou_thres area_growth_factor curr_boxes prev_boxes)"

text \<open>
  The trigger pair as the specification words it: \<open>iou >= iou_threshold\<close> and
  \<open>p.area > 0\<close> and \<open>c.area / (p.area + \<epsilon>) >= growth_factor\<close>.
\<close>

definition trigger_pair :: "real \<Rightarrow> real \<Rightarrow> box \<Rightarrow> box \<Rightarrow> bool" where
  "trigger_pair iou_threshold growth_factor c p \<longleftrightarrow>
     compute_iou (coords c) (coords p) \<ge> iou_threshold \<and> area p > 0 \<and>
     area c / (area p + 1 / 1000000) \<ge> growth_factor"

section \<open>Strings, paths and time formatting used by the log\<close>

text \<open>\<open>str(n)\<close> of a Python integer, as the f-strings of lines 75 and 147 use it.\<close>

fun str_nat :: "nat \<Rightarrow> string" where
  "str_nat n =
     (if n < 10 then [char_of (48 + n)]
      else str_nat (n div 10) @ [char_of (48 + n mod 10)])"

declare str_nat.simps [simp del]

definition str_int :: "int \<Rightarrow> string" where
  "str_int i = (if i < 0 then CHR ''-'' # str_nat (nat (- i)) else str_nat (nat i))"

text \<open>\<open>os.path.join\<close> of two components, with the POSIX separator.\<close>

definition path_join :: "string \<Rightarrow> string \<Rightarrow> string" where
  "path_join a b =
     (if take 1 b = ''/'' then b
      else if a = [] \<or> last a = CHR ''/'' then a @ b
      else a @ ''/'' @ b)"

text \<open>\<open>int(x)\<close> of a float truncates towards zero.\<close>

definition py_int :: "real \<Rightarrow> int" where
  "py_int x = (if x \<ge> 0 then \<lfloor>x\<rfloor> else \<lceil>x\<rceil>)"

text \<open>\<open>round(x, 2)\<close> of a float: to the nearest hundredth, a tie going to the even one.\<close>

definition py_round2 :: "real \<Rightarrow> real" where
  "py_round2 x =
     (let y = x * 100; f = \<lfloor>y\<rfloor> in
      real_of_int (if y - real_of_int f < 1 / 2 then f
                   else if y - real_of_int f > 1 / 2 then f + 1
                   else if even f then f else f + 1) / 100)"

text \<open>
  \<open>str(timedelta(seconds=n))\<close>: \<open>H:MM:SS\<close>, after \<open>D day, \<close> or \<open>D days, \<close> when the
  days are not zero.
\<close>

definition two_digits :: "int \<Rightarrow> string" where
  "two_digits v = (if 0 \<le> v \<and> v < 10 then CHR ''0'' # str_int v else str_int v)"

definition timedelta_str :: "int \<Rightarrow> string" where
  "timedelta_str n =
     (let days = n div 86400;
          seconds = n mod 86400;
          mm = seconds div 60;
          ss = seconds mod 60;
          hh = mm div 60;
          mm = mm mod 60;
          s = str_int hh @ '':'' @ two_digits mm @ '':'' @ two_digits ss
      in if days \<noteq> 0
         then str_int days @ '' day'' @ (if \<bar>days\<bar> \<noteq> 1 then ''s'' else []) @ '', '' @ s
         else s)"

section \<open>\<open>analyze_frames\<close> (lines 57-189)\<close>

record accident_event =
  event_id :: int
  frame :: int
  time_seconds :: real
  time_hhmmss :: string
  snapshot_path :: string

datatype cell = IntCell int | NumCell real | StrCell string

text \<open>
  A file written by the run: a snapshot (\<open>cv2.imwrite\<close>, by its path) or the CSV log
  (its path and its rows, each row the list of its cells).
\<close>

datatype file_write = Jpg string | Csv string "cell list list"

text \<open>The arguments of \<open>analyze_frames\<close> other than the frame generator.\<close>

record args =
  base_name :: string
  fps :: real
  conf_thres :: real
  accident_iou_thres :: real
  area_growth_factor :: real
  max_frames :: "int option"

text \<open>
  The loop variables of lines 77-81, with two logs of what the run did to the outside:
  \<open>inferred\<close>, the frames given to the YOLO model (line 96), and \<open>written\<close>, the files
  written (lines 149 and 166-185), both in order. The \<open>print\<close> calls and the drawing on
  the frame are not modelled.
\<close>

record 'f run_state =
  prev_boxes :: "box list"
  accident_events :: "accident_event list"
  snapshot_paths :: "string list"
  accident_counter :: int
  frame_idx :: int
  inferred :: "'f list"
  written :: "file_write list"

definition init_state :: "'f run_state" where
  "init_state =
     \<lparr>prev_boxes = [], accident_events = [], snapshot_paths = [],
      accident_counter = 0, frame_idx = 0, inferred = [], written = []\<rparr>"

text \<open>Lines 129-160: what an event frame adds.\<close>

definition save_snapshot :: "args \<Rightarrow> 'f run_state \<Rightarrow> 'f run_state" where
  "save_snapshot A st =
     (let accident_counter' = accident_counter st + 1;
          ts = (if fps A > 0 then real_of_int (frame_idx st) / fps A
                else real_of_int (frame_idx st));
          time_str = timedelta_str (py_int ts);
          snapshot_path' = path_join ''outputs/frames''
            (base_name A @ ''_accident_'' @ str_int accident_counter' @
             ''_frame_'' @ str_int (frame_idx st) @ ''.jpg'')
      in st\<lparr>accident_counter := accident_counter',
            written := written st @ [Jpg snapshot_path'],
            snapshot_paths := snapshot_paths st @ [snapshot_path'],
            accident_events := accident_events st @
              [\<lparr>event_id = accident_counter',
                frame = frame_idx st,
                time_seconds = (if fps A > 0 then py_round2 ts else ts),
                time_hhmmss = time_str,
                snapshot_path = snapshot_path'\<rparr>]\<rparr>)"

text \<open>
  Lines 92-162: the body of the loop for a frame that is processed. The detector is the
  parameter \<open>model\<close>: from the confidence threshold and a frame to the detections, each
  with the label \<open>model.names[cls_id]\<close> and its \<open>xyxy\<close> box.
\<close>

definition process_frame ::
  "(real \<Rightarrow> 'f \<Rightarrow> detection list) \<Rightarrow> args \<Rightarrow> 'f \<Rightarrow> 'f run_state \<Rightarrow> 'f run_state" where
  "process_frame model A frame' st =
     (let results = model (conf_thres A) frame';
          st1 = st\<lparr>inferred := inferred st @ [frame']\<rparr>;
          curr_boxes = collect_boxes results;
          flag = accident_in_this_frame (accident_iou_thres A) (area_growth_factor A)
                   curr_boxes (prev_boxes st1);
          st2 = (if flag then save_snapshot A st1 else st1)
      in st2\<lparr>prev_boxes := curr_boxes\<rparr>)"

text \<open>
  Lines 84-162: one iteration, on the item the generator gave. The flag says whether the
  loop goes on (\<open>True\<close>) or leaves by \<open>break\<close> (\<open>False\<close>).
\<close>

definition loop_body ::
  "(real \<Rightarrow> 'f \<Rightarrow> detection list) \<Rightarrow> args \<Rightarrow> 'f option \<Rightarrow> 'f run_state
     \<Rightarrow> bool \<times> 'f run_state" where
  "loop_body model A item st =
     (case item of
        None \<Rightarrow> (False, st)
      | Some frame' \<Rightarrow>
          (let st1 = st\<lparr>frame_idx := frame_idx st + 1\<rparr> in
           if (case max_frames A of None \<Rightarrow> False | Some m \<Rightarrow> frame_idx st1 > m)
           then (False, st1)
           else (True, process_frame model A frame' st1)))"

text \<open>
  The frame generator is a state \<open>g\<close> with the function \<open>nxt\<close> that \<open>next()\<close> runs:
  \<open>None\<close> is \<open>StopIteration\<close>, \<open>Some (item, g')\<close> a yielded item (a frame, or Python's
  \<open>None\<close>) and the generator's new state. A generator may yield for ever, so the loop of
  line 83 is a partial function: \<open>None\<close> is a run that never leaves the loop.
\<close>

partial_function (option) for_loop ::
  "(real \<Rightarrow> 'f \<Rightarrow> detection list) \<Rightarrow> args \<Rightarrow> ('g \<Rightarrow> ('f option \<times> 'g) option) \<Rightarrow> 'g
     \<Rightarrow> 'f run_state \<Rightarrow> ('g \<times> 'f run_state) option" where
  "for_loop model A nxt g st =
     (case nxt g of
        None \<Rightarrow> Some (g, st)
      | Some (item, g') \<Rightarrow>
          (case loop_body model A item st of
             (continue, st') \<Rightarrow>
               if continue then for_loop model A nxt g' st' else Some (g', st')))"

declare for_loop.simps [code]

definition csv_header :: "cell list" where
  "csv_header = [StrCell ''event_id'', StrCell ''frame'', StrCell ''time_seconds'',
                 StrCell ''time_hhmmss'', StrCell ''snapshot_path'']"

text \<open>The row \<open>csv.DictWriter\<close> writes for an event, in the order of \<open>fieldnames\<close>.\<close>

definition csv_row :: "accident_event \<Rightarrow> cell list" where
  "csv_row e = [IntCell (event_id e), IntCell (frame e), NumCell (time_seconds e),
                StrCell (time_hhmmss e), StrCell (snapshot_path e)]"

text \<open>Lines 164-185: the CSV log, written after the loop.\<close>

definition write_csv :: "string \<Rightarrow> 'f run_state \<Rightarrow> 'f run_state" where
  "write_csv log_csv_path st =
     (if accident_events st \<noteq> []
      then st\<lparr>written := written st @
             [Csv log_csv_path (csv_header # map csv_row (accident_events st))]\<rparr>
      else st\<lparr>written := written st @ [Csv log_csv_path [csv_header]]\<rparr>)"

text \<open>
  What a call of \<open>analyze_frames\<close> leaves: the returned pair, the state of the variables
  and logs at the end, and the generator as the loop left it.
\<close>

record ('f, 'g) analysis =
  returned :: "string list \<times> string"
  final :: "'f run_state"
  generator :: 'g

definition analyze_frames ::
  "(real \<Rightarrow> 'f \<Rightarrow> detection list) \<Rightarrow> ('g \<Rightarrow> ('f option \<times> 'g) option) \<Rightarrow> 'g \<Rightarrow> args
     \<Rightarrow> ('f, 'g) analysis option" where
  "analyze_frames model nxt g A =
     (let log_csv_path = path_join ''outputs'' (base_name A @ ''_accident_log.csv'') in
      case for_loop model A nxt g init_state of
        None \<Rightarrow> None
      | Some (g', st) \<Rightarrow>
          (let st' = write_csv log_csv_path st in
           Some \<lparr>returned = (snapshot_paths st', log_csv_path), final = st',
                 generator = g'\<rparr>))"

text \<open>A generator over a finite list of items, such as \<open>iter(items)\<close>.\<close>

fun list_next :: "'a list \<Rightarrow> ('a \<times> 'a list) option" where
  "list_next [] = None"
| "list_next (x # xs) = Some (x, xs)"

section \<open>The three entry points (lines 194-323)\<close>

text \<open>
  \<open>cv2.VideoCapture(source)\<close> gives a capture: whether it opened, the frame rate it
  reports, and \<open>read()\<close> as a function on the capture's own state \<open>'c\<close>, returning
  \<open>(ret, frame)\<close> and the new state.
\<close>

datatype source = Index int | Location string

record ('f, 'c) capture =
  isOpened :: bool
  CAP_PROP_FPS :: real
  cap_read :: "'c \<Rightarrow> (bool \<times> 'f option) \<times> 'c"
  cap_state :: 'c

text \<open>What the entry points use of the outside world.\<close>

record ('f, 'c) world =
  yolo :: "real \<Rightarrow> 'f \<Rightarrow> detection list"
  path_exists :: "string \<Rightarrow> bool"
  VideoCapture :: "source \<Rightarrow> ('f, 'c) capture"

datatype error = RuntimeError string

text \<open>
  What a call of an entry point leaves: the exception raised or the pair returned, the
  files written and the frames given to the model.
\<close>

record 'f outcome =
  result :: "error + (string list \<times> string option)"
  files :: "file_write list"
  frames_processed :: "'f list"

definition returns_nothing :: "'f outcome" where
  "returns_nothing = \<lparr>result = Inr ([], None), files = [], frames_processed = []\<rparr>"

definition raises :: "string \<Rightarrow> 'f outcome" where
  "raises msg = \<lparr>result = Inl (RuntimeError msg), files = [], frames_processed = []\<rparr>"

definition after_analysis :: "('f, 'g) analysis \<Rightarrow> 'f outcome" where
  "after_analysis r =
     \<lparr>result = Inr (fst (returned r), Some (snd (returned r))),
      files = written (final r), frames_processed = inferred (final r)\<rparr>"

text \<open>\<open>os.path.basename\<close> and the root of \<open>os.path.splitext\<close> on a base name.\<close>

definition basename :: "string \<Rightarrow> string" where
  "basename p = rev (takeWhile (\<lambda>c. c \<noteq> CHR ''/'') (rev p))"

definition splitext_root :: "string \<Rightarrow> string" where
  "splitext_root p =
     (if CHR ''.'' \<in> set p then
        (let root = rev (drop 1 (dropWhile (\<lambda>c. c \<noteq> CHR ''.'') (rev p))) in
         if list_ex (\<lambda>c. c \<noteq> CHR ''.'') root then root else p)
      else p)"

text \<open>The argument \<open>video_file\<close>: a path, or an object with a \<open>name\<close>.\<close>

datatype video_file = PathStr string | FileObj string

text \<open>The generator \<open>frame_gen\<close> of lines 211-216, on the state of the capture.\<close>

definition upload_frame_gen ::
  "('c \<Rightarrow> (bool \<times> 'f option) \<times> 'c) \<Rightarrow> 'c \<Rightarrow> ('f option \<times> 'c) option" where
  "upload_frame_gen rd c =
     (case rd c of ((ret, frame'), c') \<Rightarrow> if \<not> ret then None else Some (frame', c'))"

definition process_uploaded_video ::
  "('f, 'c) world \<Rightarrow> video_file option \<Rightarrow> real \<Rightarrow> real \<Rightarrow> real \<Rightarrow> 'f outcome option" where
  "process_uploaded_video W video_file conf_thres' accident_iou area_growth =
     (case video_file of
        None \<Rightarrow> Some returns_nothing
      | Some vf \<Rightarrow>
          (let video_path = (case vf of PathStr s \<Rightarrow> s | FileObj name \<Rightarrow> name) in
           if \<not> path_exists W video_path then Some returns_nothing
           else
             (let cap = VideoCapture W (Location video_path) in
              if \<not> isOpened cap then Some returns_nothing
              else
                (let fps' = (if CAP_PROP_FPS cap = 0 then 25 else CAP_PROP_FPS cap);
                     base_name' = splitext_root (basename video_path)
                 in map_option after_analysis
                      (analyze_frames (yolo W) (upload_frame_gen (cap_read cap)) (cap_state cap)
                         \<lparr>base_name = base_name', fps = fps', conf_thres = conf_thres',
                          accident_iou_thres = accident_iou, area_growth_factor = area_growth,
                          max_frames = None\<rparr>)))))"

text \<open>
  The generator \<open>frame_gen\<close> of lines 248-255 and of lines 302-310 (the same but for a
  \<open>print\<close>), on the pair of \<open>count\<close> and the state of the capture.
\<close>

definition live_frame_gen ::
  "('c \<Rightarrow> (bool \<times> 'f option) \<times> 'c) \<Rightarrow> int \<Rightarrow> int \<times> 'c \<Rightarrow> ('f option \<times> int \<times> 'c) option" where
  "live_frame_gen rd max_frames' s =
     (case s of (count, c) \<Rightarrow>
        if count < max_frames' then
          (case rd c of ((ret, frame'), c') \<Rightarrow>
             if \<not> ret then None else Some (frame', (count + 1, c')))
        else None)"

definition process_webcam ::
  "('f, 'c) world \<Rightarrow> real \<Rightarrow> real \<Rightarrow> real \<Rightarrow> real \<Rightarrow> 'f outcome option" where
  "process_webcam W duration_sec conf_thres' accident_iou area_growth =
     (let cap = VideoCapture W (Index 0) in
      if \<not> isOpened cap then Some (raises ''Could not open laptop webcam (index 0).'')
      else
        (let fps0 = CAP_PROP_FPS cap;
             fps' = (if fps0 \<le> 0 \<or> fps0 > 120 then 15 else fps0);
             base_name' = ''laptop_webcam'';
             max_frames' = py_int (fps' * duration_sec)
         in map_option after_analysis
              (analyze_frames (yolo W) (live_frame_gen (cap_read cap) max_frames')
                 (0, cap_state cap)
                 \<lparr>base_name = base_name', fps = fps', conf_thres = conf_thres',
                  accident_iou_thres = accident_iou, area_growth_factor = area_growth,
                  max_frames = Some max_frames'\<rparr>)))"

definition ip_cam_message :: "string \<Rightarrow> string" where
  "ip_cam_message ip_url =
     ''Could not open IP camera stream: '' @ ip_url @ [CHR 0x0A] @
     ''Check that:'' @ [CHR 0x0A] @
     ''  - Phone and laptop are on the same Wi-Fi'' @ [CHR 0x0A] @
     ''  - You can open this URL in your browser'' @ [CHR 0x0A] @
     ''  - IP Webcam (or similar app) is running.''"

definition process_phone_ip_cam ::
  "('f, 'c) world \<Rightarrow> string option \<Rightarrow> real \<Rightarrow> real \<Rightarrow> real \<Rightarrow> real \<Rightarrow> 'f outcome option" where
  "process_phone_ip_cam W ip_url duration_sec conf_thres' accident_iou area_growth =
     (case ip_url of
        None \<Rightarrow> Some returns_nothing
      | Some url \<Rightarrow>
          if url = [] then Some returns_nothing
          else
            (let cap = VideoCapture W (Location url) in
             if \<not> isOpened cap then Some (raises (ip_cam_message url))
             else
               (let fps0 = CAP_PROP_FPS cap;
                    fps' = (if fps0 \<le> 0 \<or> fps0 > 120 then 15 else fps0);
                    base_name' = ''phone_ip_cam'';
                    max_frames' = py_int (fps' * duration_sec)
                in map_option after_analysis
                     (analyze_frames (yolo W) (live_frame_gen (cap_read cap) max_frames')
                        (0, cap_state cap)
                        \<lparr>base_name = base_name', fps = fps', conf_thres = conf_thres',
                         accident_iou_thres = accident_iou, area_growth_factor = area_growth,
                         max_frames = Some max_frames'\<rparr>))))"

section \<open>Reading the logs, and concrete inputs\<close>

fun is_csv :: "file_write \<Rightarrow> bool" where
  "is_csv (Csv path rows) = True"
| "is_csv (Jpg path) = False"

text \<open>
  A detector for examples: the frame is a number \<open>side\<close>, and the detector sees one car,
  the square from the origin with this side.
\<close>

definition square_car :: "real \<Rightarrow> real \<Rightarrow> detection list" where
  "square_car conf side = [\<lparr>cls_label = ''car'', xyxy = (0, 0, side, side)\<rparr>]"

definition demo_args :: args where
  "demo_args = \<lparr>base_name = ''clip'', fps = 25, conf_thres = 2 / 5,
                 accident_iou_thres = 1 / 2, area_growth_factor = 3 / 2,
                 max_frames = None\<rparr>"

text \<open>A world where no file exists and no capture opens.\<close>

definition dead_capture :: "(real, unit) capture" where
  "dead_capture = \<lparr>isOpened = False, CAP_PROP_FPS = 0,
                    cap_read = (\<lambda>c. ((False, None), c)), cap_state = ()\<rparr>"

definition offline_world :: "(real, unit) world" where
  "offline_world = \<lparr>yolo = square_car, path_exists = (\<lambda>p. False),
                     VideoCapture = (\<lambda>s. dead_capture)\<rparr>"

section \<open>Properties of the geometry and of the search\<close>

lemma scan_prev_Cons:
  "scan_prev it gf cb (pb # pbs) =
     (if trigger_pair it gf cb pb then (True, [(cb, pb)])
      else (fst (scan_prev it gf cb pbs), (cb, pb) # snd (scan_prev it gf cb pbs)))"
  by (auto simp: trigger_pair_def Let_def split: prod.splits)

lemma scan_curr_Cons:
  "scan_curr it gf (cb # cbs) pbs =
     (if fst (scan_prev it gf cb pbs) then (True, snd (scan_prev it gf cb pbs))
      else (fst (scan_curr it gf cbs pbs),
            snd (scan_prev it gf cb pbs) @ snd (scan_curr it gf cbs pbs)))"
  by (auto split: prod.splits)

lemma scan_prev_flag:
  "fst (scan_prev it gf cb pbs) \<longleftrightarrow> (\<exists>p \<in> set pbs. trigger_pair it gf cb p)"
  by (induction pbs) (simp_all add: scan_prev_Cons del: scan_prev.simps(2))

lemma scan_prev_seen:
  "snd (scan_prev it gf cb pbs) =
     takeWhile (\<lambda>(c, p). \<not> trigger_pair it gf c p) (map (Pair cb) pbs) @
     take 1 (dropWhile (\<lambda>(c, p). \<not> trigger_pair it gf c p) (map (Pair cb) pbs))"
  by (induction pbs) (simp_all add: scan_prev_Cons del: scan_prev.simps(2))

lemma scan_curr_flag:
  "fst (scan_curr it gf cbs pbs) \<longleftrightarrow> (\<exists>c \<in> set cbs. \<exists>p \<in> set pbs. trigger_pair it gf c p)"
  by (induction cbs) (simp_all add: scan_curr_Cons scan_prev_flag del: scan_curr.simps(2))

lemma takeWhile_append_all:
  "\<forall>x \<in> set xs. P x \<Longrightarrow> takeWhile P (xs @ ys) = xs @ takeWhile P ys"
  by (induction xs) auto

lemma dropWhile_append_all:
  "\<forall>x \<in> set xs. P x \<Longrightarrow> dropWhile P (xs @ ys) = dropWhile P ys"
  by (induction xs) auto

lemma scan_curr_seen:
  "snd (scan_curr it gf cbs pbs) =
     takeWhile (\<lambda>(c, p). \<not> trigger_pair it gf c p) (List.product cbs pbs) @
     take 1 (dropWhile (\<lambda>(c, p). \<not> trigger_pair it gf c p) (List.product cbs pbs))"
proof (induction cbs)
  case Nil
  then show ?case by simp
next
  case (Cons cb cbs)
  let ?P = "\<lambda>(c, p). \<not> trigger_pair it gf c p"
  show ?case
  proof (cases "fst (scan_prev it gf cb pbs)")
    case True
    then obtain p where p: "p \<in> set pbs" "trigger_pair it gf cb p"
      by (auto simp: scan_prev_flag)
    let ?xs = "map (Pair cb) pbs" and ?ys = "List.product cbs pbs"
    have mem: "(cb, p) \<in> set ?xs" and np: "\<not> ?P (cb, p)" using p by auto
    have tw: "takeWhile ?P (?xs @ ?ys) = takeWhile ?P ?xs"
      using mem np by (rule takeWhile_append1)
    have dw: "dropWhile ?P (?xs @ ?ys) = dropWhile ?P ?xs @ ?ys"
      using mem np by (rule dropWhile_append1)
    have ne: "dropWhile ?P ?xs \<noteq> []"
      using mem np by (auto simp: dropWhile_eq_Nil_conv)
    have tk: "take 1 (dropWhile ?P ?xs @ ?ys) = take 1 (dropWhile ?P ?xs)"
      using ne by (cases "dropWhile ?P ?xs") simp_all
    have "snd (scan_curr it gf (cb # cbs) pbs) = snd (scan_prev it gf cb pbs)"
      using True by (simp add: scan_curr_Cons del: scan_curr.simps(2))
    also have "\<dots> = takeWhile ?P ?xs @ take 1 (dropWhile ?P ?xs)"
      by (rule scan_prev_seen)
    also have "\<dots> = takeWhile ?P (List.product (cb # cbs) pbs) @
        take 1 (dropWhile ?P (List.product (cb # cbs) pbs))"
      by (simp only: List.product.simps tw dw tk)
    finally show ?thesis .
  next
    case False
    then have all: "\<forall>x \<in> set (map (Pair cb) pbs). ?P x"
      by (auto simp: scan_prev_flag)
    then have tw: "takeWhile ?P (map (Pair cb) pbs) = map (Pair cb) pbs"
      and dw: "dropWhile ?P (map (Pair cb) pbs) = []" by auto
    have "snd (scan_curr it gf (cb # cbs) pbs) =
        snd (scan_prev it gf cb pbs) @ snd (scan_curr it gf cbs pbs)"
      using False by (simp add: scan_curr_Cons del: scan_curr.simps(2))
    also have "snd (scan_prev it gf cb pbs) = map (Pair cb) pbs"
      by (simp only: scan_prev_seen tw dw) simp
    finally show ?thesis
      using all Cons.IH by (simp add: takeWhile_append_all dropWhile_append_all)
  qed
qed

lemma compute_iou_denominator_pos:
  "0 < clamped_area (a0, a1, a2, a3) + clamped_area (b0, b1, b2, b3)
         - max 0 (min a2 b2 - max a0 b0) * max 0 (min a3 b3 - max a1 b1) + 1 / 1000000"
proof -
  have w: "max 0 (min a2 b2 - max a0 b0) \<le> max 0 (a2 - a0)" by (auto simp: max_def min_def)
  have h: "max 0 (min a3 b3 - max a1 b1) \<le> max 0 (a3 - a1)" by (auto simp: max_def min_def)
  have "max 0 (min a2 b2 - max a0 b0) * max 0 (min a3 b3 - max a1 b1)
          \<le> max 0 (a2 - a0) * max 0 (a3 - a1)"
    by (rule mult_mono[OF w h]) auto
  moreover have "0 \<le> max 0 (b2 - b0) * max 0 (b3 - b1)" by simp
  ultimately show ?thesis unfolding clamped_area.simps by linarith
qed

text \<open>
  Claim C1. A frame is flagged exactly when some current box \<open>c\<close> and some previous
  box \<open>p\<close> form a trigger pair. The search stops at the first such pair in iteration
  order (current boxes outermost): the pairs it examines are the pairs before the first
  trigger pair, and that pair.
\<close>

theorem event_frame_iff_trigger_pair:
  "(accident_in_this_frame it gf cs ps \<longleftrightarrow>
      (\<exists>c \<in> set cs. \<exists>p \<in> set ps. trigger_pair it gf c p)) \<and>
   snd (scan_curr it gf cs ps) =
     takeWhile (\<lambda>(c, p). \<not> trigger_pair it gf c p) (List.product cs ps) @
     take 1 (dropWhile (\<lambda>(c, p). \<not> trigger_pair it gf c p) (List.product cs ps))"
  unfolding accident_in_this_frame_def
  using scan_curr_flag[of it gf cs ps] scan_curr_seen[of it gf cs ps] by blast

theorem event_frame_iff_trigger_pair_witness:
  "accident_in_this_frame (1 / 2) (3 / 2)
     [\<lparr>coords = (0, 0, 13, 13), area = 169, label = ''car''\<rparr>,
      \<lparr>coords = (50, 50, 60, 60), area = 100, label = ''bus''\<rparr>]
     [\<lparr>coords = (0, 0, 10, 10), area = 100, label = ''car''\<rparr>,
      \<lparr>coords = (50, 50, 60, 60), area = 100, label = ''bus''\<rparr>] \<and>
   trigger_pair (1 / 2) (3 / 2)
     \<lparr>coords = (0, 0, 13, 13), area = 169, label = ''car''\<rparr>
     \<lparr>coords = (0, 0, 10, 10), area = 100, label = ''car''\<rparr> \<and>
   snd (scan_curr (1 / 2) (3 / 2)
     [\<lparr>coords = (0, 0, 13, 13), area = 169, label = ''car''\<rparr>,
      \<lparr>coords = (50, 50, 60, 60), area = 100, label = ''bus''\<rparr>]
     [\<lparr>coords = (0, 0, 10, 10), area = 100, label = ''car''\<rparr>,
      \<lparr>coords = (50, 50, 60, 60), area = 100, label = ''bus''\<rparr>]) =
     [(\<lparr>coords = (0, 0, 13, 13), area = 169, label = ''car''\<rparr>,
       \<lparr>coords = (0, 0, 10, 10), area = 100, label = ''car''\<rparr>)]"
  using event_frame_iff_trigger_pair[of "1 / 2" "3 / 2"
     "[\<lparr>coords = (0, 0, 13, 13), area = 169, label = ''car''\<rparr>,
      \<lparr>coords = (50, 50, 60, 60), area = 100, label = ''bus''\<rparr>]"
     "[\<lparr>coords = (0, 0, 10, 10), area = 100, label = ''car''\<rparr>,
      \<lparr>coords = (50, 50, 60, 60), area = 100, label = ''bus''\<rparr>]"]
  by (simp add: trigger_pair_def Let_def)


text \<open>
  Claim C8. The clamped area is never negative, whatever the four numbers; so the
  \<open>area\<close> of every vehicle box of a frame is not negative either.
\<close>

theorem clamped_area_nonneg:
  "0 \<le> clamped_area c \<and> (\<forall>b \<in> set (collect_boxes ds). 0 \<le> area b)"
proof
  show "0 \<le> clamped_area c" by (cases c) simp
  show "\<forall>b \<in> set (collect_boxes ds). 0 \<le> area b"
    by (induction ds) (auto split: if_splits prod.splits)
qed

theorem clamped_area_nonneg_witness:
  "\<lparr>coords = (10, 10, 5, 20), area = 0, label = ''car''\<rparr>
     \<in> set (collect_boxes [\<lparr>cls_label = ''car'', xyxy = (10, 10, 5, 20)\<rparr>]) \<and>
   0 \<le> area \<lparr>coords = (10, 10, 5, 20), area = 0, label = ''car''\<rparr> \<and>
   0 \<le> clamped_area (10, 10, 5, 20)"
  using clamped_area_nonneg[of "(10, 10, 5, 20)"
      "[\<lparr>cls_label = ''car'', xyxy = (10, 10, 5, 20)\<rparr>]"]
  by (simp add: VEHICLE_CLASSES_def)





section \<open>The loop: unfolding, invariants and termination\<close>

lemma for_loop_invariant:
  fixes model :: "real \<Rightarrow> 'f \<Rightarrow> detection list"
    and nxt :: "'g \<Rightarrow> ('f option \<times> 'g) option"
  assumes run: "for_loop model A nxt g st = Some (g', st')"
    and start: "I st"
    and step: "\<And>item s. I s \<Longrightarrow> I (snd (loop_body model A item s))"
  shows "I st'"
proof -
  have "(\<forall>item s. I s \<longrightarrow> I (snd (loop_body model A item s))) \<longrightarrow> I st \<longrightarrow> I (snd (g', st'))"
  proof (rule for_loop.raw_induct[where P = "\<lambda>m B n h s y.
      (\<forall>item s. I s \<longrightarrow> I (snd (loop_body m B item s))) \<longrightarrow> I s \<longrightarrow> I (snd y)", OF _ run])
    fix loop :: "(real \<Rightarrow> 'f \<Rightarrow> detection list) \<Rightarrow> args \<Rightarrow> ('g \<Rightarrow> ('f option \<times> 'g) option) \<Rightarrow> 'g
     \<Rightarrow> 'f run_state \<Rightarrow> ('g \<times> 'f run_state) option"
    fix m B n h s y
    assume IH: "\<And>m B n h s y. loop m B n h s = Some y \<Longrightarrow>
        (\<forall>item s. I s \<longrightarrow> I (snd (loop_body m B item s))) \<longrightarrow> I s \<longrightarrow> I (snd y)"
    assume body: "(case n h of None \<Rightarrow> Some (h, s)
      | Some (item, g') \<Rightarrow>
          case loop_body m B item s of
          (continue, st') \<Rightarrow>
            if continue then loop m B n g' st'
            else Some (g', st')) = Some y"
    show "(\<forall>item s. I s \<longrightarrow> I (snd (loop_body m B item s))) \<longrightarrow> I s \<longrightarrow> I (snd y)"
    proof (intro impI)
      assume st: "\<forall>item s. I s \<longrightarrow> I (snd (loop_body m B item s))" and s: "I s"
      show "I (snd y)"
      proof (cases "n h")
        case None
        with body s show ?thesis by auto
      next
        case (Some p)
        obtain item h' where p: "p = (item, h')" by (cases p)
        obtain c s' where lb: "loop_body m B item s = (c, s')" by (cases "loop_body m B item s")
        from st s lb have s': "I s'" by (metis snd_conv)
        show ?thesis
        proof (cases c)
          case True
          with body Some p lb have "loop m B n h' s' = Some y" by simp
          from IH[OF this] st s' show ?thesis by blast
        next
          case False
          with body Some p lb have "y = (h', s')" by simp
          with s' show ?thesis by simp
        qed
      qed
    qed
  qed
  with start step show ?thesis by simp
qed

lemma for_loop_list_total: "\<exists>r. for_loop model A list_next items st = Some r"
proof (induction items arbitrary: st)
  case Nil
  show ?case by (subst for_loop.simps) simp
next
  case (Cons x xs)
  obtain c s' where lb: "loop_body model A x st = (c, s')" by (cases "loop_body model A x st")
  show ?case using Cons[of s'] lb by (subst for_loop.simps) simp
qed


lemma save_snapshot_fields [simp]:
  "frame_idx (save_snapshot A st) = frame_idx st"
  "inferred (save_snapshot A st) = inferred st"
  "prev_boxes (save_snapshot A st) = prev_boxes st"
  "accident_counter (save_snapshot A st) = accident_counter st + 1"
  "length (accident_events (save_snapshot A st)) = Suc (length (accident_events st))"
  "map event_id (accident_events (save_snapshot A st)) =
     map event_id (accident_events st) @ [accident_counter st + 1]"
  "length (snapshot_paths (save_snapshot A st)) = Suc (length (snapshot_paths st))"
  by (simp_all add: save_snapshot_def Let_def)

lemma process_frame_fields [simp]:
  "frame_idx (process_frame model A f st) = frame_idx st"
  "inferred (process_frame model A f st) = inferred st @ [f]"
  "prev_boxes (process_frame model A f st) = collect_boxes (model (conf_thres A) f)"
  by (simp_all add: process_frame_def Let_def)

lemma process_frame_events:
  "accident_in_this_frame (accident_iou_thres A) (area_growth_factor A)
     (collect_boxes (model (conf_thres A) f)) (prev_boxes st) \<Longrightarrow>
   accident_counter (process_frame model A f st) = accident_counter st + 1 \<and>
   map event_id (accident_events (process_frame model A f st)) =
     map event_id (accident_events st) @ [accident_counter st + 1]"
  "\<not> accident_in_this_frame (accident_iou_thres A) (area_growth_factor A)
     (collect_boxes (model (conf_thres A) f)) (prev_boxes st) \<Longrightarrow>
   accident_counter (process_frame model A f st) = accident_counter st \<and>
   accident_events (process_frame model A f st) = accident_events st \<and>
   snapshot_paths (process_frame model A f st) = snapshot_paths st \<and>
   written (process_frame model A f st) = written st"
  by (simp_all add: process_frame_def Let_def)

lemma counter_invariant_step:
  assumes "int (length (accident_events s)) = accident_counter s \<and>
           map event_id (accident_events s) = [1..accident_counter s]"
  shows "int (length (accident_events (snd (loop_body model A item s)))) =
           accident_counter (snd (loop_body model A item s)) \<and>
         map event_id (accident_events (snd (loop_body model A item s))) =
           [1..accident_counter (snd (loop_body model A item s))]"
proof (cases item)
  case None
  with assms show ?thesis by (simp add: loop_body_def)
next
  case (Some f)
  let ?s1 = "s\<lparr>frame_idx := frame_idx s + 1\<rparr>"
  have ge: "0 \<le> accident_counter s" using assms by linarith
  have up: "[1..accident_counter s + 1] = [1..accident_counter s] @ [accident_counter s + 1]"
    using ge upto_rec2[of 1 "accident_counter s + 1"] by simp
  show ?thesis
  proof (cases "accident_in_this_frame (accident_iou_thres A) (area_growth_factor A)
     (collect_boxes (model (conf_thres A) f)) (prev_boxes ?s1)")
    case True
    from process_frame_events(1)[where model=model and A=A and f=f and st="?s1", OF True] assms Some up show ?thesis
      apply (simp add: loop_body_def Let_def split: option.splits)
      by (metis length_map length_append_singleton of_nat_Suc add.commute)
  next
    case False
    from process_frame_events(2)[where model=model and A=A and f=f and st="?s1", OF False] assms Some show ?thesis
      by (simp add: loop_body_def Let_def split: option.splits)
  qed
qed


lemma for_loop_list_Nil: "for_loop model A list_next [] st = Some ([], st)"
  by (subst for_loop.simps) simp

lemma for_loop_list_Cons:
  "for_loop model A list_next (x # xs) st =
     (if fst (loop_body model A x st)
      then for_loop model A list_next xs (snd (loop_body model A x st))
      else Some (xs, snd (loop_body model A x st)))"
  by (subst for_loop.simps) (simp split: prod.splits)

lemma for_loop_stop: "nxt g = None \<Longrightarrow> for_loop model A nxt g st = Some (g, st)"
  by (subst for_loop.simps) simp

lemma for_loop_item:
  "nxt g = Some (item, g') \<Longrightarrow>
   for_loop model A nxt g st =
     (if fst (loop_body model A item st)
      then for_loop model A nxt g' (snd (loop_body model A item st))
      else Some (g', snd (loop_body model A item st)))"
  by (subst for_loop.simps) (simp split: prod.splits)

lemma loop_body_None [simp]: "loop_body model A None st = (False, st)"
  by (simp add: loop_body_def)

lemma loop_body_Some:
  "loop_body model A (Some f) st =
     (if (case max_frames A of None \<Rightarrow> False | Some m \<Rightarrow> frame_idx st + 1 > m)
      then (False, st\<lparr>frame_idx := frame_idx st + 1\<rparr>)
      else (True, process_frame model A f (st\<lparr>frame_idx := frame_idx st + 1\<rparr>)))"
  by (simp add: loop_body_def Let_def split: option.splits)

lemma for_loop_budget_total:
  assumes "max_frames A = Some N"
  shows "\<exists>r. for_loop model A nxt g st = Some r"
proof (induction "nat (N - frame_idx st)" arbitrary: g st rule: less_induct)
  case less
  show ?case
  proof (cases "nxt g")
    case None
    then show ?thesis by (simp add: for_loop_stop)
  next
    case (Some p)
    obtain item g' where p: "p = (item, g')" by (cases p)
    show ?thesis
    proof (cases item)
      case None
      with Some p show ?thesis by (simp add: for_loop_item)
    next
      case (Some f)
      note item = Some
      show ?thesis
      proof (cases "frame_idx st + 1 > N")
        case True
        with \<open>nxt g = Some p\<close> p item assms show ?thesis
          by (simp add: for_loop_item loop_body_Some)
      next
        case False
        let ?st' = "process_frame model A f (st\<lparr>frame_idx := frame_idx st + 1\<rparr>)"
        have "nat (N - frame_idx ?st') < nat (N - frame_idx st)" using False by simp
        from less[OF this] obtain r where "for_loop model A nxt g' ?st' = Some r" by blast
        with \<open>nxt g = Some p\<close> p item assms False show ?thesis
          by (simp add: for_loop_item loop_body_Some)
      qed
    qed
  qed
qed

lemma for_loop_list_budget:
  assumes "max_frames A = Some N"
  shows "\<exists>st'. for_loop model A list_next items st =
           Some (drop (min (nat (N - frame_idx st) + 1)
                   (length (takeWhile (\<lambda>x. x \<noteq> None) items) + 1)) items, st') \<and>
         inferred st' = inferred st @
           take (nat (N - frame_idx st)) (map the (takeWhile (\<lambda>x. x \<noteq> None) items))"
proof (induction items arbitrary: st)
  case Nil
  show ?case by (simp add: for_loop_list_Nil)
next
  case (Cons x xs)
  show ?case
  proof (cases x)
    case None
    then show ?thesis by (simp add: for_loop_list_Cons)
  next
    case (Some f)
    show ?thesis
    proof (cases "frame_idx st + 1 > N")
      case True
      then have "nat (N - frame_idx st) = 0" by simp
      with True Some assms show ?thesis
        by (simp add: for_loop_list_Cons loop_body_Some)
    next
      case False
      let ?st' = "process_frame model A f (st\<lparr>frame_idx := frame_idx st + 1\<rparr>)"
      have n: "nat (N - frame_idx st) = Suc (nat (N - frame_idx ?st'))" using False by simp
      from Cons[of ?st'] obtain st'' where
        run: "for_loop model A list_next xs ?st' =
           Some (drop (min (nat (N - frame_idx ?st') + 1)
                   (length (takeWhile (\<lambda>x. x \<noteq> None) xs) + 1)) xs, st'')"
        and inf: "inferred st'' = inferred ?st' @
           take (nat (N - frame_idx ?st')) (map the (takeWhile (\<lambda>x. x \<noteq> None) xs))"
        by blast
      have "for_loop model A list_next (x # xs) st = for_loop model A list_next xs ?st'"
        using Some False assms by (simp add: for_loop_list_Cons loop_body_Some)
      with run inf Some show ?thesis unfolding n by simp
    qed
  qed
qed

section \<open>Properties of a run\<close>

lemma counter_invariant_any_generator:
  fixes model :: "real \<Rightarrow> 'f \<Rightarrow> detection list"
    and nxt :: "'g \<Rightarrow> ('f option \<times> 'g) option"
  assumes "for_loop model A nxt g init_state = Some (g', st)"
  shows "int (length (accident_events st)) = accident_counter st \<and>
         map event_id (accident_events st) = [1..accident_counter st]"
  by (rule for_loop_invariant[OF assms, where I = "\<lambda>s.
        int (length (accident_events s)) = accident_counter s \<and>
        map event_id (accident_events s) = [1..accident_counter s]"])
     (simp add: init_state_def, rule counter_invariant_step)

lemma sorted_upto_strict: "sorted_wrt (<) [i..j]"
  by (simp add: sorted_wrt_iff_nth_less)

text \<open>
  Claim C3. Whatever finite sequence of items the loop has consumed, it ends in a state
  where the number of collected events equals \<open>accident_counter\<close> and the \<open>event_id\<close>
  fields are \<open>1, \<dots>, accident_counter\<close> in this order, strictly increasing. The items,
  detector and arguments are arbitrary, so the frames on which events fall are too.
\<close>

theorem event_ids_count_up:
  "\<exists>rest st. for_loop model A list_next items init_state = Some (rest, st) \<and>
     int (length (accident_events st)) = accident_counter st \<and>
     map event_id (accident_events st) = [1..accident_counter st] \<and>
     sorted_wrt (<) (map event_id (accident_events st))"
proof -
  obtain r where r: "for_loop model A list_next items init_state = Some r"
    using for_loop_list_total by blast
  obtain rest st where "r = (rest, st)" by (cases r)
  with r have run: "for_loop model A list_next items init_state = Some (rest, st)" by simp
  from counter_invariant_any_generator[OF run] show ?thesis
    using run sorted_upto_strict by auto
qed


lemmas run_simps = for_loop_list_Cons for_loop_list_Nil loop_body_Some process_frame_def
  accident_in_this_frame_def square_car_def demo_args_def VEHICLE_CLASSES_def init_state_def
  Let_def

theorem event_ids_count_up_witness:
  "map_option (map event_id \<circ> accident_events \<circ> snd)
     (for_loop square_car demo_args list_next [Some 10, Some 13, Some 16] init_state) =
     Some [1, 2] \<and>
   map_option (map frame \<circ> accident_events \<circ> snd)
     (for_loop square_car demo_args list_next [Some 10, Some 13, Some 16] init_state) =
     Some [2, 3] \<and>
   map_option (accident_counter \<circ> snd)
     (for_loop square_car demo_args list_next [Some 10, Some 13, Some 16] init_state) =
     Some 2"
  using event_ids_count_up[of square_car demo_args "[Some 10, Some 13, Some 16]"]
  by (simp add: run_simps save_snapshot_def)


lemma write_csv_fields [simp]:
  "inferred (write_csv p st) = inferred st"
  "accident_events (write_csv p st) = accident_events st"
  "snapshot_paths (write_csv p st) = snapshot_paths st"
  "accident_counter (write_csv p st) = accident_counter st"
  "frame_idx (write_csv p st) = frame_idx st"
  "prev_boxes (write_csv p st) = prev_boxes st"
  "written (write_csv p st) = written st @ [Csv p (csv_header # map csv_row (accident_events st))]"
  by (simp_all add: write_csv_def)

lemma analyze_frames_Some:
  "analyze_frames model nxt g A = Some r \<longleftrightarrow>
     (\<exists>g' st. for_loop model A nxt g init_state = Some (g', st) \<and>
        r = \<lparr>returned = (snapshot_paths st,
                          path_join ''outputs'' (base_name A @ ''_accident_log.csv'')),
             final = write_csv (path_join ''outputs'' (base_name A @ ''_accident_log.csv'')) st,
             generator = g'\<rparr>)"
  by (auto simp: analyze_frames_def Let_def split: option.splits)

lemma budget_invariant_step:
  assumes "max_frames A = Some N"
    and "length (inferred s) \<le> nat N \<and> int (length (inferred s)) \<le> frame_idx s"
  shows "length (inferred (snd (loop_body model A item s))) \<le> nat N \<and>
         int (length (inferred (snd (loop_body model A item s))))
           \<le> frame_idx (snd (loop_body model A item s))"
proof (cases item)
  case None
  with assms show ?thesis by simp
next
  case (Some f)
  with assms show ?thesis by (auto simp: loop_body_Some)
qed

lemma budget_any_generator:
  fixes model :: "real \<Rightarrow> 'f \<Rightarrow> detection list"
    and nxt :: "'g \<Rightarrow> ('f option \<times> 'g) option"
  assumes N: "max_frames A = Some N"
  shows "\<exists>r. analyze_frames model nxt g A = Some r \<and> length (inferred (final r)) \<le> nat N"
proof -
  obtain p where "for_loop model A nxt g init_state = Some p"
    using for_loop_budget_total[OF N, of model nxt g init_state] by blast
  then obtain g' st where run: "for_loop model A nxt g init_state = Some (g', st)"
    by (cases p) simp
  have "length (inferred st) \<le> nat N \<and> int (length (inferred st)) \<le> frame_idx st"
    by (rule for_loop_invariant[OF run, where I = "\<lambda>s.
          length (inferred s) \<le> nat N \<and> int (length (inferred s)) \<le> frame_idx s"])
       (simp add: init_state_def, rule budget_invariant_step[OF N])
  with run show ?thesis by (simp add: analyze_frames_Some)
qed

text \<open>
  Claim C2, as stated, fails: with \<open>max_frames = 1\<close> and a generator holding two frames,
  only the first frame is given to the model, but the generator is left empty: the second
  frame was pulled before the loop stopped.
\<close>

theorem max_frames_pulls_one_more_counterexample:
  "map_option generator
     (analyze_frames square_car list_next [Some 10, Some 13]
        (demo_args\<lparr>max_frames := Some 1\<rparr>)) = Some [] \<and>
   map_option (inferred \<circ> final)
     (analyze_frames square_car list_next [Some 10, Some 13]
        (demo_args\<lparr>max_frames := Some 1\<rparr>)) = Some [10]"
  by (simp add: analyze_frames_def run_simps)

text \<open>
  Claim C2, amended. With \<open>max_frames = N\<close> the call returns on every generator, even
  an endless one, and at most \<open>N\<close> frames are given to the model. On a finite sequence
  of items the frames processed are the first \<open>N\<close> of those yielded before the first
  \<open>None\<close>, and the items pulled are one more than the frames processed, when there is
  one more: the item after the \<open>N\<close>th frame is pulled and dropped.
\<close>

theorem max_frames_budget:
  assumes "max_frames A = Some N"
  shows "(\<exists>r. analyze_frames model nxt g A = Some r \<and>
               length (inferred (final r)) \<le> nat N) \<and>
         (\<exists>r. analyze_frames model list_next items A = Some r \<and>
               inferred (final r) =
                 take (nat N) (map the (takeWhile (\<lambda>x. x \<noteq> None) items)) \<and>
               generator r =
                 drop (min (nat N + 1) (length (takeWhile (\<lambda>x. x \<noteq> None) items) + 1))
                   items)"
proof
  show "\<exists>r. analyze_frames model nxt g A = Some r \<and> length (inferred (final r)) \<le> nat N"
    by (rule budget_any_generator[OF assms])
  from for_loop_list_budget[OF assms, of model items init_state]
  show "\<exists>r. analyze_frames model list_next items A = Some r \<and>
               inferred (final r) =
                 take (nat N) (map the (takeWhile (\<lambda>x. x \<noteq> None) items)) \<and>
               generator r =
                 drop (min (nat N + 1) (length (takeWhile (\<lambda>x. x \<noteq> None) items) + 1))
                   items"
    by (auto simp: analyze_frames_Some init_state_def)
qed

theorem max_frames_budget_witness:
  "max_frames (demo_args\<lparr>max_frames := Some 2\<rparr>) = Some 2 \<and>
   map_option (inferred \<circ> final)
     (analyze_frames square_car list_next [Some 10, Some 13, Some 16, Some 20]
        (demo_args\<lparr>max_frames := Some 2\<rparr>)) = Some [10, 13] \<and>
   map_option generator
     (analyze_frames square_car list_next [Some 10, Some 13, Some 16, Some 20]
        (demo_args\<lparr>max_frames := Some 2\<rparr>)) = Some [Some 20]"
  using max_frames_budget[of "demo_args\<lparr>max_frames := Some 2\<rparr>" 2 square_car
      list_next "[Some 10, Some 13, Some 16, Some 20]" "[Some 10, Some 13, Some 16, Some 20]"]
  by (auto simp: demo_args_def)


lemma no_boxes_no_accident:
  "cs = [] \<or> ps = [] \<Longrightarrow> \<not> accident_in_this_frame it gf cs ps"
  unfolding accident_in_this_frame_def scan_curr_flag by auto

text \<open>
  Claim C4. After a frame is processed, \<open>prev_boxes\<close> is the list of this frame's vehicle
  boxes, flagged or not. When the previous or the current boxes are empty, no event is
  recorded (and the memory is updated all the same); the memory starts empty, so the
  first iteration of the loop records no event.
\<close>

theorem memory_is_last_frame:
  fixes model :: "real \<Rightarrow> 'f \<Rightarrow> detection list"
  shows
  "prev_boxes (process_frame model A f st) = collect_boxes (model (conf_thres A) f) \<and>
   (fst (loop_body model A item st) \<longrightarrow>
      (\<exists>f'. item = Some f' \<and>
         prev_boxes (snd (loop_body model A item st)) =
           collect_boxes (model (conf_thres A) f'))) \<and>
   (prev_boxes st = [] \<or> collect_boxes (model (conf_thres A) f) = [] \<longrightarrow>
      accident_events (process_frame model A f st) = accident_events st \<and>
      accident_counter (process_frame model A f st) = accident_counter st \<and>
      snapshot_paths (process_frame model A f st) = snapshot_paths st \<and>
      written (process_frame model A f st) = written st) \<and>
   prev_boxes (init_state :: 'f run_state) = [] \<and>
   accident_events (snd (loop_body model A item init_state)) = [] \<and>
   accident_counter (snd (loop_body model A item init_state)) = 0"
proof (intro conjI impI)
  show "prev_boxes (process_frame model A f st) = collect_boxes (model (conf_thres A) f)"
    by simp
  show "\<exists>f'. item = Some f' \<and>
         prev_boxes (snd (loop_body model A item st)) =
           collect_boxes (model (conf_thres A) f')"
    if "fst (loop_body model A item st)"
    using that by (cases item) (auto simp: loop_body_Some split: if_splits)
  assume e: "prev_boxes st = [] \<or> collect_boxes (model (conf_thres A) f) = []"
  then have no: "\<not> accident_in_this_frame (accident_iou_thres A) (area_growth_factor A)
     (collect_boxes (model (conf_thres A) f)) (prev_boxes st)"
    using no_boxes_no_accident by blast
  from process_frame_events(2)[where model=model and A=A and f=f and st=st, OF no]
  show "accident_events (process_frame model A f st) = accident_events st"
    and "accident_counter (process_frame model A f st) = accident_counter st"
    and "snapshot_paths (process_frame model A f st) = snapshot_paths st"
    and "written (process_frame model A f st) = written st"
    by simp_all
next
  show "prev_boxes (init_state :: 'f run_state) = []" by (simp add: init_state_def)
  have first: "accident_events (snd (loop_body model A item init_state)) = [] \<and>
     accident_counter (snd (loop_body model A item init_state)) = 0"
  proof (cases item)
    case None
    then show ?thesis by (simp add: init_state_def)
  next
    case (Some f')
    let ?s1 = "(init_state :: 'f run_state)\<lparr>frame_idx := frame_idx (init_state :: 'f run_state) + 1\<rparr>"
    have "\<not> accident_in_this_frame (accident_iou_thres A) (area_growth_factor A)
       (collect_boxes (model (conf_thres A) f')) (prev_boxes ?s1)"
      by (rule no_boxes_no_accident) (simp add: init_state_def)
    from process_frame_events(2)[where model=model and A=A and f=f' and st="?s1", OF this] Some
    show ?thesis
      by (simp add: loop_body_Some init_state_def)
  qed
  then show "accident_events (snd (loop_body model A item init_state)) = []"
    and "accident_counter (snd (loop_body model A item init_state)) = 0" by simp_all
qed

theorem memory_is_last_frame_witness:
  "fst (loop_body square_car demo_args (Some 13)
         (init_state\<lparr>prev_boxes := collect_boxes (square_car (2 / 5) 10), frame_idx := 1\<rparr>)) \<and>
   prev_boxes (snd (loop_body square_car demo_args (Some 13)
         (init_state\<lparr>prev_boxes := collect_boxes (square_car (2 / 5) 10), frame_idx := 1\<rparr>))) =
     [\<lparr>coords = (0, 0, 13, 13), area = 169, label = ''car''\<rparr>] \<and>
   accident_counter (snd (loop_body square_car demo_args (Some 13)
         (init_state\<lparr>prev_boxes := collect_boxes (square_car (2 / 5) 10), frame_idx := 1\<rparr>))) = 1 \<and>
   prev_boxes (init_state :: real run_state) = [] \<and>
   accident_events (process_frame square_car demo_args 13 (init_state :: real run_state)) = []"
  using memory_is_last_frame[of square_car demo_args 13 "init_state :: real run_state" "Some 13"]
    memory_is_last_frame[of square_car demo_args 13
      "init_state\<lparr>prev_boxes := collect_boxes (square_car (2 / 5) 10), frame_idx := 1\<rparr>"
      "Some 13"]
  by (simp add: loop_body_Some process_frame_def accident_in_this_frame_def square_car_def
      demo_args_def VEHICLE_CLASSES_def init_state_def Let_def)


lemma process_frame_written:
  assumes "written s = map Jpg (snapshot_paths s) \<and>
           length (snapshot_paths s) = length (accident_events s)"
  shows "written (process_frame model A f s) = map Jpg (snapshot_paths (process_frame model A f s)) \<and>
         length (snapshot_paths (process_frame model A f s)) =
           length (accident_events (process_frame model A f s))"
  using assms by (simp add: process_frame_def save_snapshot_def Let_def)

lemma snapshot_invariant_step:
  assumes "written s = map Jpg (snapshot_paths s) \<and>
           length (snapshot_paths s) = length (accident_events s)"
  shows "written (snd (loop_body model A item s)) =
           map Jpg (snapshot_paths (snd (loop_body model A item s))) \<and>
         length (snapshot_paths (snd (loop_body model A item s))) =
           length (accident_events (snd (loop_body model A item s)))"
proof (cases item)
  case None
  with assms show ?thesis by simp
next
  case (Some f)
  have "written (s\<lparr>frame_idx := frame_idx s + 1\<rparr>) =
          map Jpg (snapshot_paths (s\<lparr>frame_idx := frame_idx s + 1\<rparr>)) \<and>
        length (snapshot_paths (s\<lparr>frame_idx := frame_idx s + 1\<rparr>)) =
          length (accident_events (s\<lparr>frame_idx := frame_idx s + 1\<rparr>))"
    using assms by simp
  from process_frame_written[OF this, of model A f] assms Some show ?thesis
    by (simp add: loop_body_Some)
qed

lemma filter_is_csv_Jpg [simp]: "filter is_csv (map Jpg ps) = []"
  by (induction ps) simp_all

lemma analysis_result:
  fixes model :: "real \<Rightarrow> 'f \<Rightarrow> detection list"
    and nxt :: "'g \<Rightarrow> ('f option \<times> 'g) option"
  assumes "analyze_frames model nxt g A = Some r"
  shows "returned r = (snapshot_paths (final r),
                       path_join ''outputs'' (base_name A @ ''_accident_log.csv''))"
    and "written (final r) = map Jpg (snapshot_paths (final r)) @
           [Csv (snd (returned r)) (csv_header # map csv_row (accident_events (final r)))]"
    and "length (snapshot_paths (final r)) = length (accident_events (final r))"
proof -
  from assms obtain g' st where
    run: "for_loop model A nxt g init_state = Some (g', st)" and
    r: "r = \<lparr>returned = (snapshot_paths st,
                          path_join ''outputs'' (base_name A @ ''_accident_log.csv'')),
             final = write_csv (path_join ''outputs'' (base_name A @ ''_accident_log.csv'')) st,
             generator = g'\<rparr>"
    unfolding analyze_frames_Some by blast
  have inv: "written st = map Jpg (snapshot_paths st) \<and>
        length (snapshot_paths st) = length (accident_events st)"
    by (rule for_loop_invariant[OF run, where I = "\<lambda>s.
          written s = map Jpg (snapshot_paths s) \<and>
          length (snapshot_paths s) = length (accident_events s)"])
       (simp add: init_state_def, rule snapshot_invariant_step)
  show "returned r = (snapshot_paths (final r),
                       path_join ''outputs'' (base_name A @ ''_accident_log.csv''))"
    by (simp add: r)
  show "written (final r) = map Jpg (snapshot_paths (final r)) @
           [Csv (snd (returned r)) (csv_header # map csv_row (accident_events (final r)))]"
    using inv by (simp add: r)
  show "length (snapshot_paths (final r)) = length (accident_events (final r))"
    using inv by (simp add: r)
qed

lemma analyze_frames_list_total: "\<exists>r. analyze_frames model list_next items A = Some r"
proof -
  obtain p where "for_loop model A list_next items init_state = Some p"
    using for_loop_list_total[of model A items init_state] by blast
  then show ?thesis by (cases p) (simp add: analyze_frames_Some)
qed

lemma path_join_relative:
  "take 1 b \<noteq> ''/'' \<Longrightarrow> path_join ''outputs'' (b @ ''_accident_log.csv'') =
     ''outputs/'' @ b @ ''_accident_log.csv''"
  by (cases b) (simp_all add: path_join_def)

text \<open>
  Claim C5. A run over a finite sequence of items always returns, and a run that returns
  has written exactly one CSV file, last, at \<open>os.path.join("outputs",
  base_name + "_accident_log.csv")\<close>, which is also the path returned (under
  \<open>outputs/\<close> unless \<open>base_name\<close> begins with the separator): the header row
  \<open>event_id, frame, time_seconds, time_hhmmss, snapshot_path\<close>, then one row per event.
  With no event the run has written nothing but this file, holding the header alone.
\<close>

theorem csv_log_always_written:
  fixes model :: "real \<Rightarrow> 'f \<Rightarrow> detection list"
    and nxt :: "'g \<Rightarrow> ('f option \<times> 'g) option"
  shows
  "(\<exists>r. analyze_frames model list_next items A = Some r) \<and>
   (\<forall>r. analyze_frames model nxt g A = Some r \<longrightarrow>
      snd (returned r) = path_join ''outputs'' (base_name A @ ''_accident_log.csv'') \<and>
      (take 1 (base_name A) \<noteq> ''/'' \<longrightarrow>
         snd (returned r) = ''outputs/'' @ base_name A @ ''_accident_log.csv'') \<and>
      filter is_csv (written (final r)) =
        [Csv (snd (returned r)) (csv_header # map csv_row (accident_events (final r)))] \<and>
      last (written (final r)) =
        Csv (snd (returned r)) (csv_header # map csv_row (accident_events (final r))) \<and>
      csv_header = [StrCell ''event_id'', StrCell ''frame'', StrCell ''time_seconds'',
                    StrCell ''time_hhmmss'', StrCell ''snapshot_path''] \<and>
      (accident_events (final r) = [] \<longrightarrow>
         written (final r) = [Csv (snd (returned r)) [csv_header]]))"
proof (intro conjI allI impI)
  show "\<exists>r. analyze_frames model list_next items A = Some r"
    by (rule analyze_frames_list_total)
next
  fix r assume r: "analyze_frames model nxt g A = Some r"
  note res = analysis_result[OF r]
  show "snd (returned r) = path_join ''outputs'' (base_name A @ ''_accident_log.csv'')"
    by (simp add: res(1))
  show "snd (returned r) = ''outputs/'' @ base_name A @ ''_accident_log.csv''"
    if "take 1 (base_name A) \<noteq> ''/''"
    using path_join_relative[OF that] by (simp add: res(1))
  show "filter is_csv (written (final r)) =
        [Csv (snd (returned r)) (csv_header # map csv_row (accident_events (final r)))]"
    by (simp add: res(2))
  show "last (written (final r)) =
        Csv (snd (returned r)) (csv_header # map csv_row (accident_events (final r)))"
    by (simp add: res(2))
  show "csv_header = [StrCell ''event_id'', StrCell ''frame'', StrCell ''time_seconds'',
                    StrCell ''time_hhmmss'', StrCell ''snapshot_path'']"
    by (simp add: csv_header_def)
  show "written (final r) = [Csv (snd (returned r)) [csv_header]]"
    if "accident_events (final r) = []"
    using that res(3) by (simp add: res(2))
qed


lemma example_run:
  "analyze_frames square_car list_next [Some 10, Some 13] demo_args =
     Some \<lparr>returned = ([''outputs/frames/clip_accident_1_frame_2.jpg''],
                       ''outputs/clip_accident_log.csv''),
           final = \<lparr>prev_boxes = [\<lparr>coords = (0, 0, 13, 13), area = 169, label = ''car''\<rparr>],
                    accident_events =
                      [\<lparr>event_id = 1, frame = 2, time_seconds = 2 / 25,
                        time_hhmmss = ''0:00:00'',
                        snapshot_path = ''outputs/frames/clip_accident_1_frame_2.jpg''\<rparr>],
                    snapshot_paths = [''outputs/frames/clip_accident_1_frame_2.jpg''],
                    accident_counter = 1, frame_idx = 2, inferred = [10, 13],
                    written = [Jpg ''outputs/frames/clip_accident_1_frame_2.jpg'',
                               Csv ''outputs/clip_accident_log.csv''
                                 [csv_header,
                                  [IntCell 1, IntCell 2, NumCell (2 / 25), StrCell ''0:00:00'',
                                   StrCell ''outputs/frames/clip_accident_1_frame_2.jpg'']]]\<rparr>,
           generator = []\<rparr>"
  by (simp add: analyze_frames_def run_simps write_csv_def path_join_def save_snapshot_def
      csv_row_def timedelta_str_def two_digits_def str_int_def str_nat.simps py_int_def
      py_round2_def char_of_def bit_Suc_0_iff)

theorem csv_log_always_written_witness:
  "analyze_frames square_car list_next [Some 10, Some 10] demo_args =
     Some \<lparr>returned = ([], ''outputs/clip_accident_log.csv''),
           final = \<lparr>prev_boxes = [\<lparr>coords = (0, 0, 10, 10), area = 100, label = ''car''\<rparr>],
                    accident_events = [], snapshot_paths = [], accident_counter = 0,
                    frame_idx = 2, inferred = [10, 10],
                    written = [Csv ''outputs/clip_accident_log.csv'' [csv_header]]\<rparr>,
           generator = []\<rparr> \<and>
   map_option (filter is_csv \<circ> written \<circ> final)
     (analyze_frames square_car list_next [Some 10, Some 13] demo_args) =
     Some [Csv ''outputs/clip_accident_log.csv''
             [csv_header,
              [IntCell 1, IntCell 2, NumCell (2 / 25), StrCell ''0:00:00'',
               StrCell ''outputs/frames/clip_accident_1_frame_2.jpg'']]]"
proof -
  have quiet: "analyze_frames square_car list_next [Some 10, Some 10] demo_args =
     Some \<lparr>returned = ([], ''outputs/clip_accident_log.csv''),
           final = \<lparr>prev_boxes = [\<lparr>coords = (0, 0, 10, 10), area = 100, label = ''car''\<rparr>],
                    accident_events = [], snapshot_paths = [], accident_counter = 0,
                    frame_idx = 2, inferred = [10, 10],
                    written = [Csv ''outputs/clip_accident_log.csv'' [csv_header]]\<rparr>,
           generator = []\<rparr>"
    by (simp add: analyze_frames_def run_simps write_csv_def path_join_def)
  have "\<forall>r. analyze_frames square_car list_next [Some 10, Some 13] demo_args = Some r \<longrightarrow>
      filter is_csv (written (final r)) =
        [Csv (snd (returned r)) (csv_header # map csv_row (accident_events (final r)))]"
    using csv_log_always_written[of square_car "[Some 10, Some 13]" demo_args list_next
      "[Some 10, Some 13]"] by blast
  then have "map_option (filter is_csv \<circ> written \<circ> final)
     (analyze_frames square_car list_next [Some 10, Some 13] demo_args) =
     Some [Csv ''outputs/clip_accident_log.csv''
             [csv_header,
              [IntCell 1, IntCell 2, NumCell (2 / 25), StrCell ''0:00:00'',
               StrCell ''outputs/frames/clip_accident_1_frame_2.jpg'']]]"
    unfolding example_run by (simp add: csv_row_def)
  with quiet show ?thesis by blast
qed

lemma for_loop_list_None:
  "map_option snd (for_loop model A list_next (xs @ None # ys) st) =
   map_option snd (for_loop model A list_next xs st)"
proof (induction xs arbitrary: st)
  case Nil
  show ?case by (simp add: for_loop_list_Cons for_loop_list_Nil)
next
  case (Cons x xs)
  then show ?case by (simp add: for_loop_list_Cons)
qed

text \<open>
  Claim C10. When the generator yields \<open>None\<close>, the loop ends at once with the state
  unchanged (no increment of \<open>frame_idx\<close>, nothing given to the model); as the first
  item, the run returns no snapshot and writes the header-only log. On a finite sequence,
  what follows a \<open>None\<close> is never looked at: the run returns and leaves the same state
  as on the items before it, with the CSV log written last.
\<close>

theorem none_frame_ends_loop:
  fixes model :: "real \<Rightarrow> 'f \<Rightarrow> detection list"
    and nxt :: "'g \<Rightarrow> ('f option \<times> 'g) option"
  shows
  "(nxt g = Some (None, g') \<longrightarrow>
      loop_body model A None st = (False, st) \<and>
      for_loop model A nxt g st = Some (g', st) \<and>
      analyze_frames model nxt g A =
        Some \<lparr>returned = ([], path_join ''outputs'' (base_name A @ ''_accident_log.csv'')),
              final = init_state\<lparr>written :=
                [Csv (path_join ''outputs'' (base_name A @ ''_accident_log.csv''))
                   [csv_header]]\<rparr>,
              generator = g'\<rparr>) \<and>
   (\<exists>r r'. analyze_frames model list_next (xs @ None # ys) A = Some r \<and>
            analyze_frames model list_next xs A = Some r' \<and>
            returned r = returned r' \<and> final r = final r' \<and>
            returned r = (snapshot_paths (final r),
                          path_join ''outputs'' (base_name A @ ''_accident_log.csv'')) \<and>
            last (written (final r)) =
              Csv (snd (returned r)) (csv_header # map csv_row (accident_events (final r))))"
proof (intro conjI impI)
  assume n: "nxt g = Some (None, g')"
  show "loop_body model A None st = (False, st)" by simp
  show "for_loop model A nxt g st = Some (g', st)"
    using n by (simp add: for_loop_item)
  have "for_loop model A nxt g init_state = Some (g', init_state)"
    using n by (simp add: for_loop_item)
  then show "analyze_frames model nxt g A =
        Some \<lparr>returned = ([], path_join ''outputs'' (base_name A @ ''_accident_log.csv'')),
              final = init_state\<lparr>written :=
                [Csv (path_join ''outputs'' (base_name A @ ''_accident_log.csv''))
                   [csv_header]]\<rparr>,
              generator = g'\<rparr>"
    by (simp add: analyze_frames_def write_csv_def init_state_def Let_def)
next
  obtain r where r: "analyze_frames model list_next (xs @ None # ys) A = Some r"
    using analyze_frames_list_total by blast
  obtain r' where r': "analyze_frames model list_next xs A = Some r'"
    using analyze_frames_list_total by blast
  from r obtain h st where run: "for_loop model A list_next (xs @ None # ys) init_state = Some (h, st)"
    and req: "r = \<lparr>returned = (snapshot_paths st,
                          path_join ''outputs'' (base_name A @ ''_accident_log.csv'')),
             final = write_csv (path_join ''outputs'' (base_name A @ ''_accident_log.csv'')) st,
             generator = h\<rparr>"
    unfolding analyze_frames_Some by blast
  from r' obtain h' st' where run': "for_loop model A list_next xs init_state = Some (h', st')"
    and req': "r' = \<lparr>returned = (snapshot_paths st',
                          path_join ''outputs'' (base_name A @ ''_accident_log.csv'')),
             final = write_csv (path_join ''outputs'' (base_name A @ ''_accident_log.csv'')) st',
             generator = h'\<rparr>"
    unfolding analyze_frames_Some by blast
  have "st = st'"
    using for_loop_list_None[of model A xs ys init_state] run run' by simp
  then have same: "returned r = returned r'" "final r = final r'"
    by (simp_all add: req req')
  note res = analysis_result[OF r]
  have "last (written (final r)) =
      Csv (snd (returned r)) (csv_header # map csv_row (accident_events (final r)))"
    by (simp add: res(2))
  with r r' same res(1)
  show "\<exists>r r'. analyze_frames model list_next (xs @ None # ys) A = Some r \<and>
            analyze_frames model list_next xs A = Some r' \<and>
            returned r = returned r' \<and> final r = final r' \<and>
            returned r = (snapshot_paths (final r),
                          path_join ''outputs'' (base_name A @ ''_accident_log.csv'')) \<and>
            last (written (final r)) =
              Csv (snd (returned r)) (csv_header # map csv_row (accident_events (final r)))"
    by blast
qed

theorem none_frame_ends_loop_witness:
  "list_next [None, Some 13] = Some (None, [Some (13::real)]) \<and>
   for_loop square_car demo_args list_next [None, Some 13]
     (init_state\<lparr>frame_idx := 7\<rparr>) = Some ([Some 13], init_state\<lparr>frame_idx := 7\<rparr>) \<and>
   analyze_frames square_car list_next [None, Some 13] demo_args =
     Some \<lparr>returned = ([], ''outputs/clip_accident_log.csv''),
           final = init_state\<lparr>written := [Csv ''outputs/clip_accident_log.csv'' [csv_header]]\<rparr>,
           generator = [Some 13]\<rparr>"
  using none_frame_ends_loop[of list_next "[None, Some 13]" "[Some 13]" square_car demo_args
      "init_state\<lparr>frame_idx := 7\<rparr>" "[]" "[]"]
  by (simp add: path_join_def demo_args_def)


text \<open>
  Claim C6, as stated, fails for \<open>process_uploaded_video\<close>: on a path that does not
  exist it raises nothing and returns \<open>([], None)\<close>.
\<close>

theorem upload_missing_file_counterexample:
  "\<not> path_exists offline_world ''missing.mp4'' \<and>
   process_uploaded_video offline_world (Some (PathStr ''missing.mp4'')) (2 / 5) (7 / 20) (3 / 2) =
     Some \<lparr>result = Inr ([], None), files = [], frames_processed = []\<rparr>"
  by (simp add: process_uploaded_video_def offline_world_def returns_nothing_def)

text \<open>
  Claim C6, amended. When the capture does not open, \<open>process_webcam\<close> and
  \<open>process_phone_ip_cam\<close> raise \<open>RuntimeError\<close> with a message naming the source, while
  \<open>process_uploaded_video\<close>, on a missing file or a capture that does not open, returns
  \<open>([], None)\<close> without an error, as it does for no file at all and as
  \<open>process_phone_ip_cam\<close> does for an empty URL. In every one of these cases no frame
  is given to the model and no file is written.
\<close>

theorem source_failure_outcomes:
  "(\<not> isOpened (VideoCapture W (Index 0)) \<longrightarrow>
      process_webcam W duration_sec conf accident_iou area_growth =
        Some \<lparr>result = Inl (RuntimeError ''Could not open laptop webcam (index 0).''),
              files = [], frames_processed = []\<rparr>) \<and>
   (url \<noteq> [] \<and> \<not> isOpened (VideoCapture W (Location url)) \<longrightarrow>
      process_phone_ip_cam W (Some url) duration_sec conf accident_iou area_growth =
        Some \<lparr>result = Inl (RuntimeError (ip_cam_message url)),
              files = [], frames_processed = []\<rparr>) \<and>
   (\<not> path_exists W (case vf of PathStr s \<Rightarrow> s | FileObj name \<Rightarrow> name) \<or>
    \<not> isOpened (VideoCapture W (Location (case vf of PathStr s \<Rightarrow> s | FileObj name \<Rightarrow> name))) \<longrightarrow>
      process_uploaded_video W (Some vf) conf accident_iou area_growth =
        Some \<lparr>result = Inr ([], None), files = [], frames_processed = []\<rparr>) \<and>
   process_uploaded_video W None conf accident_iou area_growth =
     Some \<lparr>result = Inr ([], None), files = [], frames_processed = []\<rparr> \<and>
   process_phone_ip_cam W None duration_sec conf accident_iou area_growth =
     Some \<lparr>result = Inr ([], None), files = [], frames_processed = []\<rparr> \<and>
   process_phone_ip_cam W (Some []) duration_sec conf accident_iou area_growth =
     Some \<lparr>result = Inr ([], None), files = [], frames_processed = []\<rparr>"
  by (auto simp: process_webcam_def process_phone_ip_cam_def process_uploaded_video_def
      raises_def returns_nothing_def Let_def)

theorem source_failure_outcomes_witness:
  "\<not> isOpened (VideoCapture offline_world (Index 0)) \<and>
   process_webcam offline_world 10 (2 / 5) (7 / 20) (3 / 2) =
     Some \<lparr>result = Inl (RuntimeError ''Could not open laptop webcam (index 0).''),
           files = [], frames_processed = []\<rparr> \<and>
   \<not> isOpened (VideoCapture offline_world (Location ''http://192.168.1.5:8080/video'')) \<and>
   process_phone_ip_cam offline_world (Some ''http://192.168.1.5:8080/video'') 10
       (2 / 5) (7 / 20) (3 / 2) =
     Some \<lparr>result = Inl (RuntimeError (ip_cam_message ''http://192.168.1.5:8080/video'')),
           files = [], frames_processed = []\<rparr> \<and>
   \<not> path_exists offline_world ''missing.mp4'' \<and>
   process_uploaded_video offline_world (Some (FileObj ''missing.mp4'')) (2 / 5) (7 / 20) (3 / 2) =
     Some \<lparr>result = Inr ([], None), files = [], frames_processed = []\<rparr>"
  using source_failure_outcomes[of offline_world 10 "2 / 5" "7 / 20" "3 / 2"
      "''http://192.168.1.5:8080/video''" "FileObj ''missing.mp4''"]
  by (simp add: offline_world_def dead_capture_def)

end
